theory Spec2Isabelle
  imports Main "HOL-Library.Sublist" "HOL-Library.Word"
begin

section \<open>The chat page of the podcast digest front end\<close>

text \<open>
  The page component \<open>Home\<close> keeps its data in React state cells (\<open>useState\<close>) and
  changes them in three asynchronous handlers: \<open>handleSubmit\<close> (one chat turn, with the
  streaming loop that looks for tool markers), \<open>handleDeletePDF\<close> and
  \<open>loadUploadedPDFs\<close>. Each handler is embedded as a function from the state cells and
  the answers of the outside world (the backend, the clock, the confirm dialog) to the
  new state cells and the visible effects.

  A handler is a closure of the render in which it was created: the names
  \<open>userMessage\<close>, \<open>selectedPDF\<close>, \<open>isUsingTool\<close>, ... it mentions are the \<open>const\<close>
  bindings of that render. A setter (\<open>setIsUsingTool(true)\<close>) changes the state cell for
  the next render; it never changes the binding a running handler already holds. The
  embedding therefore reads those names from the state the handler was called with, and
  writes to the state that is passed along. Updater calls (\<open>setMessages(prev => ...)\<close>)
  receive the current cell. No second handler runs in between.
\<close>

subsection \<open>Data\<close>

datatype Role = User | Assistant

text \<open>\<open>timestamp\<close> is the value of \<open>new Date()\<close>, taken from the clock as a number.\<close>

record Message =
  role :: Role
  content :: string
  timestamp :: nat

record UploadedPDF =
  pdf_id :: string
  filename :: string
  chunks_count :: int

text \<open>The \<open>useState\<close> cells of \<open>Home\<close>, in the order of the source.\<close>

record AppState =
  messages :: "Message list"
  userMessage :: string
  developerMessage :: string
  apiKey :: string
  tavilyApiKey :: string
  model :: string
  isLoading :: bool
  isStreaming :: bool
  isUploading :: bool
  uploadedPDFs :: "UploadedPDF list"
  selectedPDF :: string
  isPDFSectionCollapsed :: bool
  isConfigSectionCollapsed :: bool
  currentTool :: string
  isUsingTool :: bool

text \<open>
  The default keys come from the environment, with a fallback when the variable is unset or
  empty (\<open>process.env.X || '...'\<close>).
\<close>

definition DEFAULT_OPENAI_API_KEY :: "string option \<Rightarrow> string" where
  "DEFAULT_OPENAI_API_KEY env =
     (case env of None \<Rightarrow> ''sk-your-openai-api-key-here''
      | Some k \<Rightarrow> if k = [] then ''sk-your-openai-api-key-here'' else k)"

definition DEFAULT_TAVILY_API_KEY :: "string option \<Rightarrow> string" where
  "DEFAULT_TAVILY_API_KEY env =
     (case env of None \<Rightarrow> ''tvly-your-tavily-api-key-here''
      | Some k \<Rightarrow> if k = [] then ''tvly-your-tavily-api-key-here'' else k)"

definition initial_state :: "string option \<Rightarrow> string option \<Rightarrow> AppState" where
  "initial_state env_openai env_tavily =
     \<lparr> messages = [], userMessage = [], developerMessage = [],
       apiKey = DEFAULT_OPENAI_API_KEY env_openai,
       tavilyApiKey = DEFAULT_TAVILY_API_KEY env_tavily,
       model = ''gpt-4o-mini'',
       isLoading = False, isStreaming = False, isUploading = False,
       uploadedPDFs = [], selectedPDF = [],
       isPDFSectionCollapsed = False, isConfigSectionCollapsed = False,
       currentTool = [], isUsingTool = False \<rparr>"

subsection \<open>Strings of the host language\<close>

text \<open>
  A string is a list of 8-bit characters, read as the code points U+0000 to U+00FF. The
  white space of \<open>String.prototype.trim\<close> in that range is TAB, LF, VT, FF, CR, SP and
  NBSP; the line terminators, which \<open>.\<close> of a regular expression does not match, are LF
  and CR (U+2028, U+2029 and the other Unicode spaces lie outside the range).
\<close>

definition is_white_space :: "char \<Rightarrow> bool" where
  "is_white_space c = ((of_char c :: nat) \<in> {9, 10, 11, 12, 13, 32, 160})"

definition is_line_terminator :: "char \<Rightarrow> bool" where
  "is_line_terminator c = ((of_char c :: nat) \<in> {10, 13})"

definition trim :: "string \<Rightarrow> string" where
  "trim s = rev (dropWhile is_white_space (rev (dropWhile is_white_space s)))"

text \<open>\<open>s.includes(t)\<close>: \<open>t\<close> occurs in \<open>s\<close> at some position.\<close>

fun string_includes :: "string \<Rightarrow> string \<Rightarrow> bool" where
  "string_includes [] t = (t = [])"
| "string_includes (c # cs) t = (prefix t (c # cs) \<or> string_includes cs t)"

subsection \<open>The tool marker\<close>

definition SENTINEL :: string where
  "SENTINEL = ''__TOOL_USAGE__''"

text \<open>
  The regular expression \<open>/__TOOL_USAGE__(.+?)__TOOL_USAGE__/\<close>, without the global flag:
  \<open>match\<close> returns the leftmost match, or null.

  \<open>capture\<close> is the part \<open>(.+?)__TOOL_USAGE__\<close> matched at the head of a text: the lazy
  group takes one character that is no line terminator, then as few more as possible until
  the closing sentinel follows. It returns the captured group.
\<close>

fun capture :: "string \<Rightarrow> string option" where
  "capture [] = None"
| "capture (c # cs) =
     (if is_line_terminator c then None
      else if prefix SENTINEL cs then Some [c]
      else map_option (Cons c) (capture cs))"

text \<open>The whole expression matched at the head of a text.\<close>

definition match_here :: "string \<Rightarrow> string option" where
  "match_here s =
     (if prefix SENTINEL s then capture (drop (length SENTINEL) s) else None)"

text \<open>
  \<open>chunk.match(...)\<close>: the start positions are tried from the left. The result is
  \<open>toolMatch[1]\<close>, the captured name, or \<open>None\<close> for null.
\<close>

fun tool_match :: "string \<Rightarrow> string option" where
  "tool_match [] = None"
| "tool_match (c # cs) =
     (case match_here (c # cs) of Some toolName \<Rightarrow> Some toolName
      | None \<Rightarrow> tool_match cs)"

subsection \<open>The streaming loop of \<open>handleSubmit\<close>\<close>

text \<open>
  One round of the loop takes one of two paths. On the first the chunk holds a complete
  marker: the tool is shown and the round ends with \<open>continue\<close>. On the second the chunk
  is text for the assistant message. \<open>decode\<close> names the path a chunk takes.
\<close>

datatype StreamEvent = Content string | Tool string

definition decode :: "string \<Rightarrow> StreamEvent" where
  "decode chunk =
     (if string_includes chunk SENTINEL
      then (case tool_match chunk of
              Some toolName \<Rightarrow> Tool toolName
            | None \<Rightarrow> Content chunk)
      else Content chunk)"

text \<open>
  The updater passed to \<open>setMessages\<close> in the loop:
  \<open>prev.map((msg, index) => index === prev.length - 1 && msg.role === 'assistant'
      ? { ...msg, content: assistantMessage } : msg)\<close>.
  On the empty list the map has no element to visit, so the truncated \<open>length prev - 1\<close>
  is never compared.
\<close>

definition set_last_content :: "string \<Rightarrow> Message list \<Rightarrow> Message list" where
  "set_last_content assistantMessage prev =
     map (\<lambda>(index, msg).
            if index = length prev - 1 \<and> role msg = Assistant
            then msg\<lparr>content := assistantMessage\<rparr> else msg)
         (enumerate 0 prev)"

text \<open>
  The rest of a round for a text chunk. \<open>captured\<close> is the \<open>isUsingTool\<close> of the closure,
  fixed for the whole call; the pair is the local variable \<open>assistantMessage\<close> and the
  state cells.
\<close>

definition apply_content :: "bool \<Rightarrow> string \<Rightarrow> string \<times> AppState \<Rightarrow> string \<times> AppState" where
  "apply_content captured chunk p =
     (let st = snd p;
          st1 = (if trim chunk \<noteq> [] \<and> captured
                 then st\<lparr>isUsingTool := False, currentTool := []\<rparr> else st);
          assistantMessage = fst p @ chunk
      in (assistantMessage,
          st1\<lparr>messages := set_last_content assistantMessage (messages st1)\<rparr>))"

definition apply_tool :: "string \<Rightarrow> string \<times> AppState \<Rightarrow> string \<times> AppState" where
  "apply_tool toolName p = (fst p, (snd p)\<lparr>currentTool := toolName, isUsingTool := True\<rparr>)"

definition process_chunk :: "bool \<Rightarrow> string \<Rightarrow> string \<times> AppState \<Rightarrow> string \<times> AppState" where
  "process_chunk captured chunk p =
     (case decode chunk of
        Tool toolName \<Rightarrow> apply_tool toolName p
      | Content text \<Rightarrow> apply_content captured text p)"

text \<open>
  Each value the reader delivers is an array of bytes, and the loop turns it into the text
  \<open>chunk\<close> with a decoder made for that value alone
  (\<open>new TextDecoder().decode(value)\<close>): nothing is carried from one value to the next.
  \<open>TextDecoder\<close> belongs to the platform, so the decoder is a parameter \<open>textDecode\<close>.
\<close>

type_synonym byte = "8 word"

definition decode_reads :: "(byte list \<Rightarrow> string) \<Rightarrow> byte list list \<Rightarrow> string list" where
  "decode_reads textDecode reads = map textDecode reads"

text \<open>
  The loop over the chunks, that is, over the decoded texts of the values the reader
  delivers before \<open>done\<close>.
\<close>

fun stream_loop :: "bool \<Rightarrow> string list \<Rightarrow> string \<times> AppState \<Rightarrow> string \<times> AppState" where
  "stream_loop captured [] p = p"
| "stream_loop captured (chunk # chunks) p =
     stream_loop captured chunks (process_chunk captured chunk p)"

subsection \<open>One turn: \<open>handleSubmit\<close>\<close>

text \<open>
  What the backend answers to the request of a turn: \<open>fetch\<close> rejects, the response is
  not ok, the response has no body reader, or the reader delivers values, given by their
  decoded texts (\<open>decode_reads\<close>), and then reports \<open>done\<close> (\<open>False\<close>) or rejects
  (\<open>True\<close>).
\<close>

datatype FetchResult = FetchThrows | ResponseNotOk | NoReader | Stream "string list" bool

record World =
  response :: FetchResult
  now_user :: nat
  now_assistant :: nat
  now_error :: nat

text \<open>
  What a handler does besides changing state cells: it shows an alert, or it sends the
  request of a turn to an endpoint with a JSON body. The requests of the document handlers
  are not listed: they appear as the answers the handlers get.
\<close>

datatype Effect = Alert string | Fetch string "(string \<times> string) list"

text \<open>
  How a call ends: \<open>Rejected\<close> is the silent return of the validation check,
  \<open>ConfigurationError\<close> the alert and return of the Tavily key check, \<open>Completed\<close> a
  \<open>try\<close> block that ran to its end, \<open>Failed\<close> one that went through \<open>catch\<close>.
\<close>

datatype Outcome = Rejected | ConfigurationError | Completed | Failed

definition endpoint :: "AppState \<Rightarrow> string" where
  "endpoint st = (if selectedPDF st \<noteq> [] then ''/api/chat-pdf'' else ''/api/chat'')"

definition DEFAULT_PDF_SYSTEM_MESSAGE :: string where
  "DEFAULT_PDF_SYSTEM_MESSAGE =
     ''You are a helpful assistant that can answer questions about uploaded PDF documents and search the web for additional information when needed. Format your responses using markdown for better readability - use headers, bullet points, code blocks, and emphasis where appropriate.''"

definition DEFAULT_DEVELOPER_MESSAGE :: string where
  "DEFAULT_DEVELOPER_MESSAGE =
     ''You are a helpful AI assistant. Format your responses using markdown for better readability.''"

text \<open>The object literal \<open>requestBody\<close>, as the list of its keys and values.\<close>

definition requestBody :: "AppState \<Rightarrow> (string \<times> string) list" where
  "requestBody st =
     (if selectedPDF st \<noteq> []
      then [(''message'', userMessage st),
            (''system_message'',
               if developerMessage st \<noteq> [] then developerMessage st
               else DEFAULT_PDF_SYSTEM_MESSAGE),
            (''model'', model st),
            (''api_key'', apiKey st),
            (''tavily_api_key'', tavilyApiKey st),
            (''pdf_id'', selectedPDF st)]
      else [(''developer_message'',
               if developerMessage st \<noteq> [] then developerMessage st
               else DEFAULT_DEVELOPER_MESSAGE),
            (''user_message'', userMessage st),
            (''model'', model st),
            (''api_key'', apiKey st)])"

definition catch_block :: "World \<Rightarrow> AppState \<Rightarrow> AppState" where
  "catch_block w st =
     st\<lparr>messages := messages st @
          [\<lparr>role = Assistant,
            content = ''Sorry, there was an error processing your request.'',
            timestamp = now_error w\<rparr>]\<rparr>"

definition finally_block :: "AppState \<Rightarrow> AppState" where
  "finally_block st =
     st\<lparr>isLoading := False, isStreaming := False, isUsingTool := False, currentTool := []\<rparr>"

text \<open>
  The state cells after the four setter calls that precede the \<open>try\<close> block: the user
  message is added to the transcript, the input is cleared and both flags are raised.
\<close>

definition begin_turn :: "World \<Rightarrow> AppState \<Rightarrow> AppState" where
  "begin_turn w st =
     st\<lparr>messages := messages st @
          [\<lparr>role = User, content = userMessage st, timestamp = now_user w\<rparr>],
        userMessage := [], isLoading := True, isStreaming := True\<rparr>"

text \<open>The empty assistant message that is added just before the loop.\<close>

definition begin_stream :: "World \<Rightarrow> AppState \<Rightarrow> AppState" where
  "begin_stream w st =
     st\<lparr>messages := messages st @
          [\<lparr>role = Assistant, content = [], timestamp = now_assistant w\<rparr>]\<rparr>"

text \<open>
  The \<open>try\<close> block with its \<open>catch\<close>. \<open>st0\<close> is the state of the closure, \<open>st\<close> the
  state cells when the block is entered.
\<close>

definition try_block :: "World \<Rightarrow> AppState \<Rightarrow> AppState \<Rightarrow> Outcome \<times> AppState" where
  "try_block w st0 st =
     (case response w of
        FetchThrows \<Rightarrow> (Failed, catch_block w st)
      | ResponseNotOk \<Rightarrow> (Failed, catch_block w st)
      | NoReader \<Rightarrow> (Failed, catch_block w st)
      | Stream chunks broken \<Rightarrow>
          (let st2 = snd (stream_loop (isUsingTool st0) chunks ([], begin_stream w st))
           in if broken then (Failed, catch_block w st2) else (Completed, st2)))"

definition handleSubmit :: "World \<Rightarrow> AppState \<Rightarrow> Outcome \<times> Effect list \<times> AppState" where
  "handleSubmit w st =
     (if trim (userMessage st) = [] \<or> trim (apiKey st) = [] then (Rejected, [], st)
      else if selectedPDF st \<noteq> [] \<and> trim (tavilyApiKey st) = []
      then (ConfigurationError,
            [Alert ''Tavily API key is required for PDF chat with web search capabilities''],
            st)
      else
        (let r = try_block w st (begin_turn w st)
         in (fst r, [Fetch (endpoint st) (requestBody st)], finally_block (snd r))))"

subsection \<open>The document list: \<open>loadUploadedPDFs\<close> and \<open>handleDeletePDF\<close>\<close>

text \<open>
  The answer to \<open>GET /api/pdfs\<close>: a list, a response that is not ok, or a rejected
  \<open>fetch\<close>. Only the first changes the state.
\<close>

datatype ListResult = ListOk "UploadedPDF list" | ListNotOk | ListThrows

definition loadUploadedPDFs :: "ListResult \<Rightarrow> AppState \<Rightarrow> AppState" where
  "loadUploadedPDFs r st =
     (case r of ListOk pdfs \<Rightarrow> st\<lparr>uploadedPDFs := pdfs\<rparr>
      | ListNotOk \<Rightarrow> st
      | ListThrows \<Rightarrow> st)"

text \<open>
  The answer to \<open>DELETE /api/pdfs/<id>\<close>: ok, not ok with the \<open>detail\<close> of its JSON body
  as the template prints it (\<open>None\<close> when the body cannot be read, which throws), or a
  rejected \<open>fetch\<close>.
\<close>

datatype DeleteResult = DeleteOk | DeleteNotOk "string option" | DeleteThrows

text \<open>
  What \<open>handleDeletePDF\<close> meets: the answer of the confirm dialog, the answer to the
  removal, and the answer to the refresh of the list that follows an acknowledged removal.
\<close>

record DeleteWorld =
  confirmed :: bool
  deleted :: DeleteResult
  listed :: ListResult

definition handleDeletePDF :: "DeleteWorld \<Rightarrow> string \<Rightarrow> AppState \<Rightarrow> Effect list \<times> AppState" where
  "handleDeletePDF w pdfId st =
     (if \<not> confirmed w then ([], st)
      else case deleted w of
        DeleteOk \<Rightarrow>
          (let st1 = loadUploadedPDFs (listed w) st;
               st2 = (if selectedPDF st = pdfId then st1\<lparr>selectedPDF := []\<rparr> else st1)
           in ([Alert ''PDF deleted successfully''], st2))
      | DeleteNotOk (Some detail) \<Rightarrow> ([Alert (''Delete failed: '' @ detail)], st)
      | DeleteNotOk None \<Rightarrow> ([Alert ''Delete failed. Please try again.''], st)
      | DeleteThrows \<Rightarrow> ([Alert ''Delete failed. Please try again.''], st))"

subsection \<open>Properties of the state\<close>

text \<open>The tool display is either on, or it names no tool.\<close>

definition tool_inv :: "AppState \<Rightarrow> bool" where
  "tool_inv st = (\<not> isUsingTool st \<longrightarrow> currentTool st = [])"

text \<open>The selection is empty or names a document of the list.\<close>

definition selection_resolves :: "AppState \<Rightarrow> bool" where
  "selection_resolves st =
     (selectedPDF st = [] \<or> selectedPDF st \<in> set (map pdf_id (uploadedPDFs st)))"

subsection \<open>Concrete inputs\<close>

text \<open>
  The page as first rendered without keys in the environment, with the text \<open>hi\<close> typed
  into the input.
\<close>

definition typed_hi :: AppState where
  "typed_hi = (initial_state None None)\<lparr>userMessage := ''hi''\<rparr>"

text \<open>A backend that streams the given chunks and then reports \<open>done\<close>.\<close>

definition streaming :: "string list \<Rightarrow> World" where
  "streaming chunks =
     \<lparr>response = Stream chunks False, now_user = 1, now_assistant = 2, now_error = 3\<rparr>"

text \<open>
  For a value whose bytes are all below 0x80 the decoder of the platform returns one
  character for each byte, with the byte as its code point. \<open>ascii_text\<close> is the decoder
  on such values and \<open>ascii_bytes\<close> gives the bytes of such a text; they are used on no
  other bytes.
\<close>

definition ascii_text :: "byte list \<Rightarrow> string" where
  "ascii_text bs = map (\<lambda>b. char_of (unat b)) bs"

definition ascii_bytes :: "string \<Rightarrow> byte list" where
  "ascii_bytes s = map (\<lambda>c. of_nat (of_char c)) s"

text \<open>The state cells when the loop of that turn is entered.\<close>

definition loop_entry :: AppState where
  "loop_entry = begin_stream (streaming []) (begin_turn (streaming []) typed_hi)"

text \<open>One uploaded document, which is also the selected one.\<close>

definition episode :: UploadedPDF where
  "episode = \<lparr>pdf_id = ''doc-1'', filename = ''episode.pdf'', chunks_count = 12\<rparr>"

definition episode_selected :: AppState where
  "episode_selected =
     (initial_state None None)\<lparr>uploadedPDFs := [episode], selectedPDF := ''doc-1''\<rparr>"

text \<open>The same page with a question typed in, and then with a blank Tavily key.\<close>

definition summarize_episode :: AppState where
  "summarize_episode = episode_selected\<lparr>userMessage := ''Summarize''\<rparr>"

definition no_tavily_key :: AppState where
  "no_tavily_key = summarize_episode\<lparr>tavilyApiKey := ''  ''\<rparr>"

text \<open>Two uploaded documents, the second one selected.\<close>

definition second_episode :: UploadedPDF where
  "second_episode = \<lparr>pdf_id = ''doc-2'', filename = ''interview.pdf'', chunks_count = 7\<rparr>"

definition second_selected :: AppState where
  "second_selected =
     (initial_state None None)\<lparr>uploadedPDFs := [episode, second_episode],
                                selectedPDF := ''doc-2''\<rparr>"

text \<open>
  A confirmed removal that the backend acknowledges, with the given answer to the refresh
  of the list that follows.
\<close>

definition deletion :: "ListResult \<Rightarrow> DeleteWorld" where
  "deletion r = \<lparr>confirmed = True, deleted = DeleteOk, listed = r\<rparr>"

section \<open>Auxiliary facts\<close>

subsection \<open>Trimming and the marker expression\<close>

lemma trim_nonempty_iff: "trim s \<noteq> [] \<longleftrightarrow> (\<exists>c\<in>set s. \<not> is_white_space c)"
proof -
  have "trim s \<noteq> [] \<longleftrightarrow> dropWhile is_white_space (rev (dropWhile is_white_space s)) \<noteq> []"
    by (simp add: trim_def)
  also have "\<dots> \<longleftrightarrow> (\<exists>c\<in>set (dropWhile is_white_space s). \<not> is_white_space c)"
    by (simp add: dropWhile_eq_Nil_conv)
  also have "\<dots> \<longleftrightarrow> (\<exists>c\<in>set s. \<not> is_white_space c)"
  proof
    assume "\<exists>c\<in>set (dropWhile is_white_space s). \<not> is_white_space c"
    then show "\<exists>c\<in>set s. \<not> is_white_space c"
      by (meson set_dropWhileD)
  next
    assume "\<exists>c\<in>set s. \<not> is_white_space c"
    then have ne: "dropWhile is_white_space s \<noteq> []"
      by (simp add: dropWhile_eq_Nil_conv)
    then have "\<not> is_white_space (hd (dropWhile is_white_space s))"
      by (rule hd_dropWhile)
    moreover have "hd (dropWhile is_white_space s) \<in> set (dropWhile is_white_space s)"
      using ne by simp
    ultimately show "\<exists>c\<in>set (dropWhile is_white_space s). \<not> is_white_space c"
      by blast
  qed
  finally show ?thesis .
qed

lemma trim_append_nonempty:
  "trim (a @ b) \<noteq> [] \<longleftrightarrow> trim a \<noteq> [] \<or> trim b \<noteq> []"
  by (auto simp: trim_nonempty_iff)

lemma capture_shape:
  "capture s = Some n \<Longrightarrow>
     n \<noteq> [] \<and> (\<forall>c\<in>set n. \<not> is_line_terminator c) \<and> (\<exists>rest. s = n @ SENTINEL @ rest)"
proof (induction s arbitrary: n)
  case Nil
  then show ?case by simp
next
  case (Cons c cs)
  show ?case
  proof (cases "prefix SENTINEL cs")
    case True
    with Cons.prems show ?thesis
      by (auto simp: prefix_def split: if_splits)
  next
    case False
    with Cons.prems obtain m where m: "capture cs = Some m" "n = c # m" "\<not> is_line_terminator c"
      by (auto split: if_splits)
    from Cons.IH[OF m(1)] m(2,3) show ?thesis by auto
  qed
qed

lemma capture_append: "capture s = Some n \<Longrightarrow> capture (s @ t) = Some n"
proof (induction s arbitrary: n)
  case Nil
  then show ?case by simp
next
  case (Cons c cs)
  show ?case
  proof (cases "prefix SENTINEL cs")
    case True
    then have "prefix SENTINEL (cs @ t)" by (simp add: prefix_prefix)
    with True Cons.prems show ?thesis by (auto split: if_splits)
  next
    case False
    with Cons.prems obtain m where m: "capture cs = Some m" "n = c # m" "\<not> is_line_terminator c"
      by (auto split: if_splits)
    from capture_shape[OF m(1)] obtain rest where "cs = m @ SENTINEL @ rest" "m \<noteq> []" by blast
    then have "length SENTINEL \<le> length cs" by simp
    with False have "\<not> prefix SENTINEL (cs @ t)"
      by (metis prefix_length_prefix prefixI append.right_neutral prefix_append)
    with m Cons.IH[OF m(1)] show ?thesis by simp
  qed
qed

lemma match_here_prefix: "match_here s = Some n \<Longrightarrow> prefix SENTINEL s"
  by (simp add: match_here_def split: if_splits)

lemma match_here_shape:
  "match_here s = Some n \<Longrightarrow>
     n \<noteq> [] \<and> (\<forall>c\<in>set n. \<not> is_line_terminator c) \<and> (\<exists>rest. s = SENTINEL @ n @ SENTINEL @ rest)"
proof -
  assume a: "match_here s = Some n"
  then have p: "prefix SENTINEL s" and c: "capture (drop (length SENTINEL) s) = Some n"
    by (auto simp: match_here_def split: if_splits)
  from p obtain u where u: "s = SENTINEL @ u" by (auto simp: prefix_def)
  with c have "capture u = Some n" by simp
  from capture_shape[OF this] u show ?thesis by auto
qed

lemma match_here_append: "match_here s = Some n \<Longrightarrow> match_here (s @ t) = Some n"
proof -
  assume a: "match_here s = Some n"
  then have p: "prefix SENTINEL s" and c: "capture (drop (length SENTINEL) s) = Some n"
    by (auto simp: match_here_def split: if_splits)
  from p obtain u where u: "s = SENTINEL @ u" by (auto simp: prefix_def)
  with c have "capture (u @ t) = Some n" by (simp add: capture_append)
  with u show ?thesis by (simp add: match_here_def)
qed

lemma match_here_Nil: "match_here [] = None"
  by (simp add: match_here_def SENTINEL_def)

lemma tool_match_append: "tool_match s = Some n \<Longrightarrow> tool_match (s @ t) \<noteq> None"
proof (induction s)
  case Nil
  then show ?case by simp
next
  case (Cons c cs)
  show ?case
  proof (cases "match_here (c # cs)")
    case None
    with Cons have "tool_match (cs @ t) \<noteq> None" by simp
    then show ?thesis by (simp split: option.splits)
  next
    case (Some m)
    from match_here_append[OF this, of t] show ?thesis by simp
  qed
qed

lemma tool_match_prepend: "tool_match t \<noteq> None \<Longrightarrow> tool_match (s @ t) \<noteq> None"
  by (induction s) (auto split: option.splits)

lemma tool_match_append_None:
  "tool_match (a @ b) = None \<Longrightarrow> tool_match a = None \<and> tool_match b = None"
  using tool_match_append tool_match_prepend by (metis option.exhaust)

lemma tool_match_includes: "tool_match s = Some n \<Longrightarrow> string_includes s SENTINEL"
proof (induction s)
  case Nil
  then show ?case by simp
next
  case (Cons c cs)
  then show ?case
    by (cases "match_here (c # cs)") (auto dest: match_here_prefix)
qed

lemma tool_match_shape:
  "tool_match s = Some n \<Longrightarrow>
     n \<noteq> [] \<and> (\<forall>c\<in>set n. \<not> is_line_terminator c) \<and>
     (\<exists>pre post. s = pre @ SENTINEL @ n @ SENTINEL @ post)"
proof (induction s)
  case Nil
  then show ?case by simp
next
  case (Cons c cs)
  show ?case
  proof (cases "match_here (c # cs)")
    case None
    with Cons.prems have "tool_match cs = Some n" by simp
    from Cons.IH[OF this] obtain pre post where
      "n \<noteq> []" "\<forall>c\<in>set n. \<not> is_line_terminator c" "cs = pre @ SENTINEL @ n @ SENTINEL @ post"
      by blast
    then have "c # cs = (c # pre) @ SENTINEL @ n @ SENTINEL @ post" by simp
    with \<open>n \<noteq> []\<close> \<open>\<forall>c\<in>set n. \<not> is_line_terminator c\<close> show ?thesis by blast
  next
    case (Some m)
    with Cons.prems have "m = n" by simp
    with match_here_shape[OF Some] show ?thesis
      by (metis append_Nil)
  qed
qed

lemma capture_complete:
  "n \<noteq> [] \<Longrightarrow> \<forall>c\<in>set n. \<not> is_line_terminator c \<Longrightarrow> capture (n @ SENTINEL @ post) \<noteq> None"
proof (induction n)
  case Nil
  then show ?case by simp
next
  case (Cons c cs)
  show ?case
  proof (cases "cs = []")
    case True
    with Cons.prems show ?thesis by simp
  next
    case False
    with Cons show ?thesis by auto
  qed
qed

lemma tool_match_complete:
  assumes "n \<noteq> []" "\<forall>c\<in>set n. \<not> is_line_terminator c"
  shows "tool_match (pre @ SENTINEL @ n @ SENTINEL @ post) \<noteq> None"
proof -
  have "match_here (SENTINEL @ n @ SENTINEL @ post) \<noteq> None"
    using capture_complete[OF assms] by (simp add: match_here_def)
  then have "tool_match (SENTINEL @ n @ SENTINEL @ post) \<noteq> None"
    by (cases "SENTINEL @ n @ SENTINEL @ post") (auto simp: match_here_Nil)
  then show ?thesis by (rule tool_match_prepend)
qed

text \<open>
  The captured name is the shortest at its position, and the position is the leftmost at
  which the expression matches.
\<close>

lemma capture_shortest:
  "capture s = Some n \<Longrightarrow> s = n2 @ SENTINEL @ r2 \<Longrightarrow> n2 \<noteq> [] \<Longrightarrow> length n \<le> length n2"
proof (induction s arbitrary: n n2)
  case Nil
  then show ?case by simp
next
  case (Cons c cs)
  from Cons.prems(2,3) obtain m2 where n2: "n2 = c # m2" "cs = m2 @ SENTINEL @ r2"
    by (cases n2) auto
  show ?case
  proof (cases "prefix SENTINEL cs")
    case True
    with Cons.prems(1) have "n = [c]" by (auto split: if_splits)
    with n2 show ?thesis by simp
  next
    case False
    with Cons.prems(1) obtain m where m: "capture cs = Some m" "n = c # m"
      by (auto split: if_splits)
    from False n2 have "m2 \<noteq> []" by auto
    from Cons.IH[OF m(1) n2(2) this] m(2) n2(1) show ?thesis by simp
  qed
qed

lemma match_here_complete:
  "n \<noteq> [] \<Longrightarrow> \<forall>c\<in>set n. \<not> is_line_terminator c \<Longrightarrow>
   match_here (SENTINEL @ n @ SENTINEL @ post) \<noteq> None"
  using capture_complete[of n post] by (simp add: match_here_def)

lemma tool_match_leftmost:
  assumes "tool_match s = Some n"
  shows "\<exists>pre post. s = pre @ SENTINEL @ n @ SENTINEL @ post \<and>
           (\<forall>pre2 n2 post2.
              s = pre2 @ SENTINEL @ n2 @ SENTINEL @ post2 \<and> n2 \<noteq> [] \<and>
              (\<forall>c\<in>set n2. \<not> is_line_terminator c) \<longrightarrow>
              length pre \<le> length pre2 \<and> (length pre2 = length pre \<longrightarrow> length n \<le> length n2))"
  using assms
proof (induction s)
  case Nil
  then show ?case by simp
next
  case (Cons c cs)
  show ?case
  proof (cases "match_here (c # cs)")
    case (Some m)
    with Cons.prems have mn: "m = n" by simp
    from match_here_shape[OF Some] mn obtain post where
      post: "c # cs = SENTINEL @ n @ SENTINEL @ post" by blast
    from Some mn post have cap: "capture (n @ SENTINEL @ post) = Some n"
      by (simp add: match_here_def)
    have "length n \<le> length n2"
      if "c # cs = pre2 @ SENTINEL @ n2 @ SENTINEL @ post2" "n2 \<noteq> []" "length pre2 = 0"
      for pre2 n2 post2
    proof -
      from that post have "n @ SENTINEL @ post = n2 @ SENTINEL @ post2" by simp
      from capture_shortest[OF cap this that(2)] show ?thesis .
    qed
    with post show ?thesis
      by (intro exI[of _ "[]"] exI[of _ post]) auto
  next
    case None
    with Cons.prems have "tool_match cs = Some n" by simp
    from Cons.IH[OF this] obtain pre post where
      ih: "cs = pre @ SENTINEL @ n @ SENTINEL @ post"
        "\<And>pre2 n2 post2. cs = pre2 @ SENTINEL @ n2 @ SENTINEL @ post2 \<Longrightarrow> n2 \<noteq> [] \<Longrightarrow>
           \<forall>c\<in>set n2. \<not> is_line_terminator c \<Longrightarrow>
           length pre \<le> length pre2 \<and> (length pre2 = length pre \<longrightarrow> length n \<le> length n2)"
      by blast
    have "length (c # pre) \<le> length pre2 \<and>
        (length pre2 = length (c # pre) \<longrightarrow> length n \<le> length n2)"
      if d: "c # cs = pre2 @ SENTINEL @ n2 @ SENTINEL @ post2" "n2 \<noteq> []"
        "\<forall>c\<in>set n2. \<not> is_line_terminator c"
      for pre2 n2 post2
    proof (cases pre2)
      case Nil
      with d(1) have "match_here (c # cs) = match_here (SENTINEL @ n2 @ SENTINEL @ post2)"
        by simp
      with match_here_complete[OF d(2,3), of post2] None show ?thesis by simp
    next
      case (Cons c' pre2')
      with d(1) have "cs = pre2' @ SENTINEL @ n2 @ SENTINEL @ post2" by simp
      from ih(2)[OF this d(2,3)] Cons show ?thesis by simp
    qed
    moreover from ih(1) have "c # cs = (c # pre) @ SENTINEL @ n @ SENTINEL @ post" by simp
    ultimately show ?thesis by blast
  qed
qed

lemma decode_eq:
  "decode chunk = (case tool_match chunk of Some toolName \<Rightarrow> Tool toolName | None \<Rightarrow> Content chunk)"
  by (auto simp: decode_def split: option.splits dest: tool_match_includes)

subsection \<open>The loop\<close>

lemma length_set_last_content [simp]: "length (set_last_content a prev) = length prev"
  by (simp add: set_last_content_def)

lemma nth_set_last_content:
  "i < length prev \<Longrightarrow>
   set_last_content a prev ! i =
     (if Suc i = length prev \<and> role (prev ! i) = Assistant then (prev ! i)\<lparr>content := a\<rparr> else prev ! i)"
  by (auto simp: set_last_content_def nth_enumerate_eq)

lemma set_last_content_twice:
  "set_last_content b (set_last_content a prev) = set_last_content b prev"
  by (rule nth_equalityI) (auto simp: nth_set_last_content)

lemma apply_content_twice:
  "apply_content captured b (apply_content captured a p) = apply_content captured (a @ b) p"
  by (cases "trim a \<noteq> [] \<and> captured"; cases "trim b \<noteq> [] \<and> captured")
     (auto simp: apply_content_def Let_def set_last_content_twice trim_append_nonempty)

lemma stream_loop_append:
  "stream_loop captured (xs @ ys) p = stream_loop captured ys (stream_loop captured xs p)"
  by (induction xs arbitrary: p) auto

lemma process_chunk_no_marker:
  "tool_match chunk = None \<Longrightarrow> process_chunk captured chunk p = apply_content captured chunk p"
  by (simp add: process_chunk_def decode_eq)

lemma process_chunk_marker:
  "tool_match chunk = Some n \<Longrightarrow> process_chunk captured chunk p = apply_tool n p"
  by (simp add: process_chunk_def decode_eq)

text \<open>Decoding value by value, and a text chunk that arrives in two parts.\<close>

lemma decode_reads_append:
  "decode_reads textDecode (xs @ ys) = decode_reads textDecode xs @ decode_reads textDecode ys"
  by (simp add: decode_reads_def)

lemma decode_reads_Cons:
  "decode_reads textDecode (x # xs) = textDecode x # decode_reads textDecode xs"
  by (simp add: decode_reads_def)

lemma decode_reads_Nil: "decode_reads textDecode [] = []"
  by (simp add: decode_reads_def)

lemma split_text_without_marker:
  assumes "tool_match (s @ t) = None"
  shows "stream_loop captured (xs @ [s, t] @ ys) p = stream_loop captured (xs @ [s @ t] @ ys) p"
proof -
  from assms have st: "tool_match s = None" "tool_match t = None"
    by (auto dest: tool_match_append_None)
  have "process_chunk captured t (process_chunk captured s q) = process_chunk captured (s @ t) q"
    for q
    by (simp add: process_chunk_no_marker st assms apply_content_twice)
  then show ?thesis
    by (simp add: stream_loop_append)
qed

lemma handleSubmit_same_loop:
  assumes "\<And>c q. stream_loop c xs q = stream_loop c ys q"
  shows "handleSubmit (w\<lparr>response := Stream xs broken\<rparr>) st =
         handleSubmit (w\<lparr>response := Stream ys broken\<rparr>) st"
  using assms
  by (simp add: handleSubmit_def try_block_def begin_turn_def begin_stream_def catch_block_def Let_def)

lemma set_last_content_snoc:
  "set_last_content a (ms @ [m]) = ms @ [if role m = Assistant then m\<lparr>content := a\<rparr> else m]"
  by (rule nth_equalityI) (auto simp: nth_set_last_content nth_append)

lemma process_chunk_last_message:
  assumes "messages (snd p) = ms @ [\<lparr>role = Assistant, content = fst p, timestamp = t\<rparr>]"
  shows "messages (snd (process_chunk captured chunk p)) =
           ms @ [\<lparr>role = Assistant, content = fst (process_chunk captured chunk p), timestamp = t\<rparr>]"
  using assms
  by (cases "decode chunk")
     (auto simp: process_chunk_def apply_tool_def apply_content_def Let_def set_last_content_snoc)

lemma stream_loop_last_message:
  assumes "messages (snd p) = ms @ [\<lparr>role = Assistant, content = fst p, timestamp = t\<rparr>]"
  shows "messages (snd (stream_loop captured chunks p)) =
           ms @ [\<lparr>role = Assistant, content = fst (stream_loop captured chunks p), timestamp = t\<rparr>]"
  using assms
proof (induction chunks arbitrary: p)
  case Nil
  then show ?case by simp
next
  case (Cons chunk chunks)
  from process_chunk_last_message[OF Cons.prems]
  show ?case by (simp add: Cons.IH)
qed

lemma fst_apply_content: "fst (apply_content captured chunk p) = fst p @ chunk"
  by (simp add: apply_content_def Let_def)

lemma process_chunk_frame:
  "length (messages (snd (process_chunk captured chunk p))) = length (messages (snd p)) \<and>
   (\<forall>i<length (messages (snd p)).
      role (messages (snd (process_chunk captured chunk p)) ! i) = role (messages (snd p) ! i) \<and>
      timestamp (messages (snd (process_chunk captured chunk p)) ! i) =
        timestamp (messages (snd p) ! i) \<and>
      (Suc i < length (messages (snd p)) \<or> role (messages (snd p) ! i) = User \<longrightarrow>
         messages (snd (process_chunk captured chunk p)) ! i = messages (snd p) ! i))"
  by (cases "decode chunk")
     (auto simp: process_chunk_def apply_tool_def apply_content_def Let_def nth_set_last_content)

lemma stream_loop_frame:
  "length (messages (snd (stream_loop captured chunks p))) = length (messages (snd p)) \<and>
   (\<forall>i<length (messages (snd p)).
      role (messages (snd (stream_loop captured chunks p)) ! i) = role (messages (snd p) ! i) \<and>
      timestamp (messages (snd (stream_loop captured chunks p)) ! i) =
        timestamp (messages (snd p) ! i) \<and>
      (Suc i < length (messages (snd p)) \<or> role (messages (snd p) ! i) = User \<longrightarrow>
         messages (snd (stream_loop captured chunks p)) ! i = messages (snd p) ! i))"
proof (induction chunks arbitrary: p)
  case Nil
  then show ?case by simp
next
  case (Cons chunk chunks)
  let ?q = "process_chunk captured chunk p"
  note one = process_chunk_frame[of captured chunk p]
  note rest = Cons.IH[of ?q]
  from one rest have len: "length (messages (snd (stream_loop captured chunks ?q))) =
      length (messages (snd p))"
    by simp
  have "role (messages (snd (stream_loop captured chunks ?q)) ! i) = role (messages (snd p) ! i) \<and>
      timestamp (messages (snd (stream_loop captured chunks ?q)) ! i) =
        timestamp (messages (snd p) ! i) \<and>
      (Suc i < length (messages (snd p)) \<or> role (messages (snd p) ! i) = User \<longrightarrow>
         messages (snd (stream_loop captured chunks ?q)) ! i = messages (snd p) ! i)"
    if "i < length (messages (snd p))" for i
  proof -
    from that one have i: "i < length (messages (snd ?q))" by simp
    from one that have a: "role (messages (snd ?q) ! i) = role (messages (snd p) ! i)"
      "timestamp (messages (snd ?q) ! i) = timestamp (messages (snd p) ! i)"
      "Suc i < length (messages (snd p)) \<or> role (messages (snd p) ! i) = User \<Longrightarrow>
         messages (snd ?q) ! i = messages (snd p) ! i"
      by blast+
    from rest i have b: "role (messages (snd (stream_loop captured chunks ?q)) ! i) =
        role (messages (snd ?q) ! i)"
      "timestamp (messages (snd (stream_loop captured chunks ?q)) ! i) =
        timestamp (messages (snd ?q) ! i)"
      "Suc i < length (messages (snd ?q)) \<or> role (messages (snd ?q) ! i) = User \<Longrightarrow>
         messages (snd (stream_loop captured chunks ?q)) ! i = messages (snd ?q) ! i"
      by blast+
    from one have l: "length (messages (snd ?q)) = length (messages (snd p))" by simp
    show ?thesis
      using a b l by auto
  qed
  with len show ?case by simp
qed

subsection \<open>The tool display and the outcomes of a turn\<close>

lemma tool_inv_process_chunk:
  "tool_inv (snd p) \<Longrightarrow> tool_inv (snd (process_chunk captured chunk p))"
  by (cases "decode chunk")
     (auto simp: process_chunk_def apply_tool_def apply_content_def Let_def tool_inv_def)

lemma tool_inv_stream_loop:
  "tool_inv (snd p) \<Longrightarrow> tool_inv (snd (stream_loop captured chunks p))"
proof (induction chunks arbitrary: p)
  case Nil
  then show ?case by simp
next
  case (Cons chunk chunks)
  from Cons.prems have "tool_inv (snd (process_chunk captured chunk p))"
    by (rule tool_inv_process_chunk)
  then show ?case by (simp add: Cons.IH)
qed

lemma finally_block_idle:
  "\<not> isUsingTool (finally_block st) \<and> currentTool (finally_block st) = []"
  by (simp add: finally_block_def)

lemma handleSubmit_cases:
  "handleSubmit w st = (Rejected, [], st) \<or>
   handleSubmit w st = (ConfigurationError,
      [Alert ''Tavily API key is required for PDF chat with web search capabilities''], st) \<or>
   (\<exists>st'. (fst (handleSubmit w st) = Completed \<or> fst (handleSubmit w st) = Failed) \<and>
      handleSubmit w st =
        (fst (handleSubmit w st), [Fetch (endpoint st) (requestBody st)], finally_block st'))"
  by (auto simp: handleSubmit_def try_block_def Let_def split: FetchResult.splits)

text \<open>
  In a call made while the display is off, the loop never switches the display off again;
  in a call made while it is on, every text chunk with a visible character does.
\<close>

lemma display_stays_on:
  "isUsingTool (snd p) \<Longrightarrow> isUsingTool (snd (stream_loop False chunks p))"
proof (induction chunks arbitrary: p)
  case Nil
  then show ?case by simp
next
  case (Cons chunk chunks)
  from Cons.prems have "isUsingTool (snd (process_chunk False chunk p))"
    by (cases "decode chunk")
       (auto simp: process_chunk_def apply_tool_def apply_content_def Let_def)
  then show ?case by (simp add: Cons.IH)
qed

lemma display_cleared_when_captured:
  "tool_match text = None \<Longrightarrow> trim text \<noteq> [] \<Longrightarrow>
   \<not> isUsingTool (snd (process_chunk True text p)) \<and>
   currentTool (snd (process_chunk True text p)) = []"
  by (simp add: process_chunk_no_marker apply_content_def Let_def)

section \<open>The marker decoder\<close>

subsection \<open>Fragment boundaries\<close>

text \<open>
  C1 (as the code has it). The loop decodes and scans each fragment by itself and keeps
  nothing from one fragment to the next. Take a fragment, wherever it stands in the
  sequence, and a split of its bytes in two such that the two parts, decoded one by one as
  the loop does, give the text of the whole fragment (a split inside a character of several
  bytes is not of this kind). If the expression finds no complete marker in the text of the
  fragment, the local \<open>assistantMessage\<close>, the transcript and the tool display after the
  loop are the same for the split and the unsplit sequence, and so is the result of the
  whole turn. If it finds a marker, the unsplit fragment only switches the display on for
  the captured name and adds nothing to the message; split so that neither part holds a
  complete marker, the two parts together do what a text chunk with the whole text does:
  the text, marker included, is appended to the message.
\<close>

theorem split_of_a_fragment:
  assumes "textDecode (a @ b) = textDecode a @ textDecode b"
  shows "(tool_match (textDecode (a @ b)) = None \<longrightarrow>
            stream_loop captured (decode_reads textDecode (pre @ [a, b] @ post)) p =
              stream_loop captured (decode_reads textDecode (pre @ [a @ b] @ post)) p \<and>
            handleSubmit
                (w\<lparr>response := Stream (decode_reads textDecode (pre @ [a, b] @ post)) broken\<rparr>) st =
              handleSubmit
                (w\<lparr>response := Stream (decode_reads textDecode (pre @ [a @ b] @ post)) broken\<rparr>) st) \<and>
         (tool_match (textDecode (a @ b)) = Some toolName \<longrightarrow>
            stream_loop captured (decode_reads textDecode [a @ b]) p =
              (fst p, (snd p)\<lparr>currentTool := toolName, isUsingTool := True\<rparr>) \<and>
            (tool_match (textDecode a) = None \<and> tool_match (textDecode b) = None \<longrightarrow>
               stream_loop captured (decode_reads textDecode [a, b]) p =
                 apply_content captured (textDecode (a @ b)) p \<and>
               fst (stream_loop captured (decode_reads textDecode [a, b]) p) =
                 fst p @ textDecode (a @ b)))"
proof -
  have none: "stream_loop c (decode_reads textDecode (pre @ [a, b] @ post)) q =
      stream_loop c (decode_reads textDecode (pre @ [a @ b] @ post)) q"
    if "tool_match (textDecode (a @ b)) = None" for c q
    using that split_text_without_marker[of "textDecode a" "textDecode b" c
        "decode_reads textDecode pre" "decode_reads textDecode post" q]
    by (simp add: assms decode_reads_append decode_reads_Cons decode_reads_Nil)
  have whole: "stream_loop captured (decode_reads textDecode [a @ b]) p =
      (fst p, (snd p)\<lparr>currentTool := toolName, isUsingTool := True\<rparr>)"
    if "tool_match (textDecode (a @ b)) = Some toolName"
    using that
    by (simp add: decode_reads_Cons decode_reads_Nil process_chunk_marker apply_tool_def)
  have parts: "stream_loop captured (decode_reads textDecode [a, b]) p =
      apply_content captured (textDecode (a @ b)) p"
    if "tool_match (textDecode a) = None" "tool_match (textDecode b) = None"
    using that
    by (simp add: decode_reads_Cons decode_reads_Nil process_chunk_no_marker apply_content_twice
        assms)
  from none whole parts show ?thesis
    by (auto simp: fst_apply_content intro: handleSubmit_same_loop)
qed

theorem split_of_a_fragment_witness:
  "ascii_text (ascii_bytes ''__TOOL_USAGE__se'' @ ascii_bytes ''arch'') =
     ascii_text (ascii_bytes ''__TOOL_USAGE__se'') @ ascii_text (ascii_bytes ''arch'') \<and>
   tool_match (ascii_text (ascii_bytes ''__TOOL_USAGE__se'' @ ascii_bytes ''arch'')) = None \<and>
   stream_loop False
       (decode_reads ascii_text [ascii_bytes ''__TOOL_USAGE__se'', ascii_bytes ''arch''])
       ([], loop_entry) =
     stream_loop False
       (decode_reads ascii_text [ascii_bytes ''__TOOL_USAGE__se'' @ ascii_bytes ''arch''])
       ([], loop_entry) \<and>
   tool_match (ascii_text (ascii_bytes ''__TOOL_USAGE__search__TOOL'' @ ascii_bytes ''_USAGE__'')) =
     Some ''search'' \<and>
   stream_loop False
       (decode_reads ascii_text [ascii_bytes ''__TOOL_USAGE__search__TOOL'' @ ascii_bytes ''_USAGE__''])
       ([], loop_entry) =
     ([], loop_entry\<lparr>currentTool := ''search'', isUsingTool := True\<rparr>) \<and>
   fst (stream_loop False
       (decode_reads ascii_text [ascii_bytes ''__TOOL_USAGE__search__TOOL'', ascii_bytes ''_USAGE__''])
       ([], loop_entry)) = ''__TOOL_USAGE__search__TOOL_USAGE__''"
proof -
  have c: "ascii_text (x @ y) = ascii_text x @ ascii_text y" for x y
    by (simp add: ascii_text_def)
  have n: "tool_match (ascii_text (ascii_bytes ''__TOOL_USAGE__se'' @ ascii_bytes ''arch'')) = None"
    by code_simp
  have m: "tool_match (ascii_text (ascii_bytes ''__TOOL_USAGE__search__TOOL'' @
      ascii_bytes ''_USAGE__'')) = Some ''search''"
    "tool_match (ascii_text (ascii_bytes ''__TOOL_USAGE__search__TOOL'')) = None"
    "tool_match (ascii_text (ascii_bytes ''_USAGE__'')) = None"
    by code_simp+
  have t: "ascii_text (ascii_bytes ''__TOOL_USAGE__search__TOOL'' @ ascii_bytes ''_USAGE__'') =
      ''__TOOL_USAGE__search__TOOL_USAGE__''"
    by code_simp
  from split_of_a_fragment [where textDecode = ascii_text
      and a = "ascii_bytes ''__TOOL_USAGE__se''" and b = "ascii_bytes ''arch''"
      and captured = False and pre = "[]" and post = "[]" and p = "([], loop_entry)", OF c] n
  have one: "stream_loop False
       (decode_reads ascii_text [ascii_bytes ''__TOOL_USAGE__se'', ascii_bytes ''arch''])
       ([], loop_entry) =
     stream_loop False
       (decode_reads ascii_text [ascii_bytes ''__TOOL_USAGE__se'' @ ascii_bytes ''arch''])
       ([], loop_entry)"
    by simp
  from split_of_a_fragment [where textDecode = ascii_text
      and a = "ascii_bytes ''__TOOL_USAGE__search__TOOL''" and b = "ascii_bytes ''_USAGE__''"
      and captured = False and toolName = "''search''" and p = "([], loop_entry)", OF c] m t
  have two: "stream_loop False
       (decode_reads ascii_text [ascii_bytes ''__TOOL_USAGE__search__TOOL'' @ ascii_bytes ''_USAGE__''])
       ([], loop_entry) =
     ([], loop_entry\<lparr>currentTool := ''search'', isUsingTool := True\<rparr>) \<and>
   fst (stream_loop False
       (decode_reads ascii_text [ascii_bytes ''__TOOL_USAGE__search__TOOL'', ascii_bytes ''_USAGE__''])
       ([], loop_entry)) = ''__TOOL_USAGE__search__TOOL_USAGE__''"
    by (simp add: fst_apply_content)
  from c n m(1) one two show ?thesis by simp
qed

text \<open>
  C1 (as stated) fails when the fragment holds a marker. Fed whole, the fragment
  \<open>__TOOL_USAGE__search__TOOL_USAGE__\<close> shows the tool \<open>search\<close> and adds nothing to
  the transcript. Split inside the closing sentinel, which cuts no character, neither
  half matches the expression: both halves are appended to the assistant message and no
  tool is shown.
\<close>

theorem split_marker_counterexample:
  "ascii_bytes ''__TOOL_USAGE__search__TOOL'' @ ascii_bytes ''_USAGE__'' =
     ascii_bytes ''__TOOL_USAGE__search__TOOL_USAGE__'' \<and>
   decode_reads ascii_text [ascii_bytes ''__TOOL_USAGE__search__TOOL'', ascii_bytes ''_USAGE__''] =
     [''__TOOL_USAGE__search__TOOL'', ''_USAGE__''] \<and>
   decode_reads ascii_text [ascii_bytes ''__TOOL_USAGE__search__TOOL_USAGE__''] =
     [''__TOOL_USAGE__search__TOOL_USAGE__''] \<and>
   tool_match (''__TOOL_USAGE__search__TOOL'' @ ''_USAGE__'') = Some ''search'' \<and>
   map decode [''__TOOL_USAGE__search__TOOL'', ''_USAGE__''] \<noteq>
     map decode [''__TOOL_USAGE__search__TOOL'' @ ''_USAGE__''] \<and>
   stream_loop False [''__TOOL_USAGE__search__TOOL'', ''_USAGE__'']
       ([], loop_entry) \<noteq>
     stream_loop False [''__TOOL_USAGE__search__TOOL'' @ ''_USAGE__'']
       ([], loop_entry) \<and>
   handleSubmit (streaming [''__TOOL_USAGE__search__TOOL'', ''_USAGE__'']) typed_hi \<noteq>
     handleSubmit (streaming [''__TOOL_USAGE__search__TOOL'' @ ''_USAGE__'']) typed_hi"
  by code_simp

subsection \<open>The scenario of the split marker\<close>

text \<open>
  C2 (as the code has it). The four fragments \<open>before \<close>,
  \<open>__TOOL_USAGE__search__TOOL\<close>, \<open>_USAGE__\<close>, \<open>after\<close> all take the text path: the
  assistant message becomes \<open>before __TOOL_USAGE__search__TOOL_USAGE__after\<close> and the tool
  display stays off. The sequence text, tool \<open>search\<close>, text is what the three fragments
  \<open>before \<close>, \<open>__TOOL_USAGE__search__TOOL_USAGE__\<close>, \<open>after\<close> give, where the marker
  arrives in one piece: then the message is \<open>before after\<close>.
\<close>

theorem split_marker_scenario:
  "map decode [''before '', ''__TOOL_USAGE__search__TOOL'', ''_USAGE__'', ''after''] =
     [Content ''before '', Content ''__TOOL_USAGE__search__TOOL'', Content ''_USAGE__'',
      Content ''after''] \<and>
   stream_loop False [''before '', ''__TOOL_USAGE__search__TOOL'', ''_USAGE__'', ''after'']
       ([], loop_entry) =
     (''before __TOOL_USAGE__search__TOOL_USAGE__after'',
      loop_entry\<lparr>messages :=
        [\<lparr>role = User, content = ''hi'', timestamp = 1\<rparr>,
         \<lparr>role = Assistant, content = ''before __TOOL_USAGE__search__TOOL_USAGE__after'',
          timestamp = 2\<rparr>]\<rparr>) \<and>
   map decode [''before '', ''__TOOL_USAGE__search__TOOL_USAGE__'', ''after''] =
     [Content ''before '', Tool ''search'', Content ''after''] \<and>
   stream_loop False [''before '', ''__TOOL_USAGE__search__TOOL_USAGE__'', ''after'']
       ([], loop_entry) =
     (''before after'',
      loop_entry\<lparr>messages :=
        [\<lparr>role = User, content = ''hi'', timestamp = 1\<rparr>,
         \<lparr>role = Assistant, content = ''before after'', timestamp = 2\<rparr>],
        currentTool := ''search'', isUsingTool := True\<rparr>)"
  by code_simp

text \<open>
  C2 (as stated) fails: the four fragments do not decode to text \<open>before \<close>, tool
  \<open>search\<close>, text \<open>after\<close>, and the assistant message does not become
  \<open>before after\<close>.
\<close>

theorem split_marker_scenario_counterexample:
  "map decode [''before '', ''__TOOL_USAGE__search__TOOL'', ''_USAGE__'', ''after''] \<noteq>
     [Content ''before '', Tool ''search'', Content ''after''] \<and>
   fst (stream_loop False [''before '', ''__TOOL_USAGE__search__TOOL'', ''_USAGE__'', ''after'']
          ([], loop_entry)) \<noteq> ''before after''"
  by code_simp

subsection \<open>A fragment with a complete marker\<close>

text \<open>
  C3 (as the code has it). A fragment that contains a span sentinel, name, sentinel, with
  a name that is not empty and has no line terminator, takes the tool path as a whole: the
  display is switched on for the name the expression captures, and the round ends there.
  The captured name is not empty, has no line terminator and is itself enclosed by two
  sentinels in the fragment. Among all such spans of the fragment its span is the leftmost,
  and among those that start at the same place it has the shortest name; in particular it
  starts no later than the given span. The local \<open>assistantMessage\<close> and the transcript
  stay as they were, so the marker is not added to the message.
\<close>

theorem marker_fragment_is_tool_signal:
  assumes "name \<noteq> []" and "\<forall>c\<in>set name. \<not> is_line_terminator c"
  shows "\<exists>toolName pre' post'.
           decode (pre @ SENTINEL @ name @ SENTINEL @ post) = Tool toolName \<and>
           process_chunk captured (pre @ SENTINEL @ name @ SENTINEL @ post) (am, st) =
             (am, st\<lparr>currentTool := toolName, isUsingTool := True\<rparr>) \<and>
           toolName \<noteq> [] \<and>
           (\<forall>c\<in>set toolName. \<not> is_line_terminator c) \<and>
           pre @ SENTINEL @ name @ SENTINEL @ post = pre' @ SENTINEL @ toolName @ SENTINEL @ post' \<and>
           length pre' \<le> length pre \<and>
           (length pre' = length pre \<longrightarrow> length toolName \<le> length name) \<and>
           (\<forall>pre2 name2 post2.
              pre @ SENTINEL @ name @ SENTINEL @ post = pre2 @ SENTINEL @ name2 @ SENTINEL @ post2 \<and>
              name2 \<noteq> [] \<and> (\<forall>c\<in>set name2. \<not> is_line_terminator c) \<longrightarrow>
              length pre' \<le> length pre2 \<and>
              (length pre2 = length pre' \<longrightarrow> length toolName \<le> length name2))"
proof -
  let ?chunk = "pre @ SENTINEL @ name @ SENTINEL @ post"
  from tool_match_complete[OF assms] obtain toolName where m: "tool_match ?chunk = Some toolName"
    by blast
  from tool_match_shape[OF m] have ne: "toolName \<noteq> []"
    and lt: "\<forall>c\<in>set toolName. \<not> is_line_terminator c" by blast+
  from tool_match_leftmost[OF m] obtain pre' post' where
    shape: "?chunk = pre' @ SENTINEL @ toolName @ SENTINEL @ post'" and
    least: "\<forall>pre2 n2 post2. ?chunk = pre2 @ SENTINEL @ n2 @ SENTINEL @ post2 \<and> n2 \<noteq> [] \<and>
           (\<forall>c\<in>set n2. \<not> is_line_terminator c) \<longrightarrow>
           length pre' \<le> length pre2 \<and> (length pre2 = length pre' \<longrightarrow> length toolName \<le> length n2)"
    by blast
  from least assms have l: "length pre' \<le> length pre"
    "length pre' = length pre \<longrightarrow> length toolName \<le> length name"
    by (metis)+
  have d: "decode ?chunk = Tool toolName"
    using m by (simp add: decode_eq)
  have pc: "process_chunk captured ?chunk (am, st) =
      (am, st\<lparr>currentTool := toolName, isUsingTool := True\<rparr>)"
    using m by (simp add: process_chunk_marker apply_tool_def)
  show ?thesis
    apply (rule exI[of _ toolName], rule exI[of _ pre'], rule exI[of _ post'])
    using d pc ne lt shape l least by blast
qed

theorem marker_fragment_is_tool_signal_witness:
  "''search'' \<noteq> [] \<and>
   tool_match (''hello '' @ SENTINEL @ ''search'' @ SENTINEL @ '' world'') = Some ''search'' \<and>
   (\<exists>toolName pre' post'.
      decode (''hello '' @ SENTINEL @ ''search'' @ SENTINEL @ '' world'') = Tool toolName \<and>
      process_chunk False (''hello '' @ SENTINEL @ ''search'' @ SENTINEL @ '' world'')
          ([], loop_entry) =
        ([], loop_entry\<lparr>currentTool := toolName, isUsingTool := True\<rparr>) \<and>
      toolName \<noteq> [] \<and>
      ''hello '' @ SENTINEL @ ''search'' @ SENTINEL @ '' world'' =
        pre' @ SENTINEL @ toolName @ SENTINEL @ post' \<and>
      length pre' \<le> length ''hello '')"
proof -
  have h1: "''search'' \<noteq> []" by simp
  have h2: "\<forall>c\<in>set ''search''. \<not> is_line_terminator c"
    by (simp add: is_line_terminator_def)
  have h3: "tool_match (''hello '' @ SENTINEL @ ''search'' @ SENTINEL @ '' world'') = Some ''search''"
    by code_simp
  from marker_fragment_is_tool_signal [OF h1 h2] h1 h3 show ?thesis
    by blast
qed

text \<open>
  C3 (as stated) fails: for the fragment \<open>hello __TOOL_USAGE__search__TOOL_USAGE__ world\<close>
  the loop shows the tool \<open>search\<close> and nothing else. The texts before and after the
  span are not decoded, and the assistant message of the turn stays empty.
\<close>

theorem marker_fragment_counterexample:
  "map decode [''hello __TOOL_USAGE__search__TOOL_USAGE__ world''] \<noteq>
     [Content ''hello '', Tool ''search'', Content '' world''] \<and>
   map decode [''hello __TOOL_USAGE__search__TOOL_USAGE__ world''] = [Tool ''search''] \<and>
   stream_loop False [''hello __TOOL_USAGE__search__TOOL_USAGE__ world''] ([], loop_entry) =
     ([], loop_entry\<lparr>currentTool := ''search'', isUsingTool := True\<rparr>) \<and>
   map content (messages (snd (snd (handleSubmit
       (streaming [''hello __TOOL_USAGE__search__TOOL_USAGE__ world'']) typed_hi)))) =
     [''hi'', []]"
  by code_simp

subsection \<open>A marker left open at the end of the stream\<close>

text \<open>
  C4 (as the code has it). The loop keeps no buffer and knows no protocol error. A
  fragment in which the expression finds no complete marker, such as one with an opening
  sentinel only, is text: it is appended to the assistant message. When it is the last
  fragment before \<open>done\<close>, the turn completes, and the transcript ends with the assistant
  message that holds the text received so far followed by that fragment.
\<close>

theorem unterminated_marker_is_content:
  assumes "tool_match chunk = None"
  shows "decode chunk = Content chunk \<and>
         fst (stream_loop captured (chunks @ [chunk]) (am, st)) =
           fst (stream_loop captured chunks (am, st)) @ chunk \<and>
         (response w = Stream (chunks @ [chunk]) False \<and>
          trim (userMessage st) \<noteq> [] \<and> trim (apiKey st) \<noteq> [] \<and>
          (selectedPDF st = [] \<or> trim (tavilyApiKey st) \<noteq> [])
          \<longrightarrow> fst (handleSubmit w st) = Completed \<and>
              messages (snd (snd (handleSubmit w st))) =
                messages st @
                [\<lparr>role = User, content = userMessage st, timestamp = now_user w\<rparr>,
                 \<lparr>role = Assistant,
                  content = fst (stream_loop (isUsingTool st) chunks
                                  ([], begin_stream w (begin_turn w st))) @ chunk,
                  timestamp = now_assistant w\<rparr>])"
proof -
  have d: "decode chunk = Content chunk"
    using assms by (simp add: decode_eq)
  have f: "fst (stream_loop c (chunks @ [chunk]) q) = fst (stream_loop c chunks q) @ chunk"
    for c q
    by (simp add: stream_loop_append process_chunk_no_marker assms fst_apply_content)
  have m: "messages (snd (stream_loop c (chunks @ [chunk]) ([], begin_stream w (begin_turn w st)))) =
      (messages st @ [\<lparr>role = User, content = userMessage st, timestamp = now_user w\<rparr>]) @
      [\<lparr>role = Assistant,
        content = fst (stream_loop c (chunks @ [chunk]) ([], begin_stream w (begin_turn w st))),
        timestamp = now_assistant w\<rparr>]" for c
    by (rule stream_loop_last_message) (simp add: begin_stream_def begin_turn_def)
  show ?thesis
    using d f m
    by (auto simp: handleSubmit_def try_block_def finally_block_def Let_def split: if_splits)
qed

theorem unterminated_marker_is_content_witness:
  "tool_match ''__TOOL_USAGE__incomplete'' = None \<and>
   decode ''__TOOL_USAGE__incomplete'' = Content ''__TOOL_USAGE__incomplete'' \<and>
   fst (handleSubmit (streaming [''Searching '', ''__TOOL_USAGE__incomplete'']) typed_hi) = Completed \<and>
   messages (snd (snd (handleSubmit (streaming [''Searching '', ''__TOOL_USAGE__incomplete'']) typed_hi))) =
     [\<lparr>role = User, content = ''hi'', timestamp = 1\<rparr>,
      \<lparr>role = Assistant, content = ''Searching __TOOL_USAGE__incomplete'', timestamp = 2\<rparr>]"
proof -
  have h: "tool_match ''__TOOL_USAGE__incomplete'' = None"
    by code_simp
  have r: "response (streaming ([''Searching ''] @ [''__TOOL_USAGE__incomplete''])) =
      Stream ([''Searching ''] @ [''__TOOL_USAGE__incomplete'']) False"
    by (simp add: streaming_def)
  have o: "trim (userMessage typed_hi) \<noteq> []" "trim (apiKey typed_hi) \<noteq> []"
    "selectedPDF typed_hi = []"
    by code_simp+
  have a: "fst (stream_loop (isUsingTool typed_hi) [''Searching '']
        ([], begin_stream (streaming ([''Searching ''] @ [''__TOOL_USAGE__incomplete'']))
               (begin_turn (streaming ([''Searching ''] @ [''__TOOL_USAGE__incomplete''])) typed_hi))) = ''Searching ''"
    by code_simp
  have t: "messages typed_hi = []" "userMessage typed_hi = ''hi''"
    "now_user (streaming ([''Searching ''] @ [''__TOOL_USAGE__incomplete''])) = 1"
    "now_assistant (streaming ([''Searching ''] @ [''__TOOL_USAGE__incomplete''])) = 2"
    by code_simp+
  from unterminated_marker_is_content [OF h, where chunks = "[''Searching '']"
      and w = "streaming ([''Searching ''] @ [''__TOOL_USAGE__incomplete''])" and st = typed_hi]
    r o a t h
  show ?thesis by simp
qed

text \<open>
  C4 (as stated) fails: a stream whose only fragment is \<open>__TOOL_USAGE__incomplete\<close>
  ends in a completed turn, not in an error, and the fragment is the content of the
  assistant message.
\<close>

theorem unterminated_marker_counterexample:
  "fst (handleSubmit (streaming [''__TOOL_USAGE__incomplete'']) typed_hi) = Completed \<and>
   fst (handleSubmit (streaming [''__TOOL_USAGE__incomplete'']) typed_hi) \<noteq> Failed \<and>
   map content (messages (snd (snd (handleSubmit (streaming [''__TOOL_USAGE__incomplete''])
     typed_hi)))) = [''hi'', ''__TOOL_USAGE__incomplete'']"
  by code_simp

section \<open>The tool display\<close>

subsection \<open>Text after a tool marker\<close>

text \<open>
  C5 asks that the display is off right after a text chunk with a visible character. The
  loop means to do so (\<open>if (chunk.trim() && isUsingTool)\<close>, under the comment "Only clear
  tool usage state if we have actual content"), but the \<open>isUsingTool\<close> it tests is the
  binding of the closure: in a turn that starts with the display off it is false in every
  round, whatever \<open>setIsUsingTool(true)\<close> has stored since. After the marker for
  \<open>search\<close> and the text chunk \<open>hello\<close> the display is still on and names \<open>search\<close>.
\<close>

theorem content_after_tool_keeps_display_on:
  "\<not> isUsingTool typed_hi \<and>
   map decode [''__TOOL_USAGE__search__TOOL_USAGE__'', ''hello''] =
     [Tool ''search'', Content ''hello''] \<and>
   trim ''hello'' \<noteq> [] \<and>
   isUsingTool (snd (stream_loop (isUsingTool typed_hi)
     [''__TOOL_USAGE__search__TOOL_USAGE__'', ''hello''] ([], loop_entry))) \<and>
   currentTool (snd (stream_loop (isUsingTool typed_hi)
     [''__TOOL_USAGE__search__TOOL_USAGE__'', ''hello''] ([], loop_entry))) = ''search''"
  by code_simp

subsection \<open>The end of a turn\<close>

text \<open>
  C6. A turn that entered the \<open>try\<close> block, whether it completes or fails, ends with the
  display off and no tool named, whatever the loop did to the display. A call that returns
  before the \<open>try\<close> block leaves the display as it was, which is off whenever no other
  turn is running. The display is off or names a tool in the first render, and every round
  of the loop, the loop as a whole and the turn as a whole keep it so.
\<close>

theorem tool_display_off_after_turn:
  "(fst (handleSubmit w st) = Completed \<or> fst (handleSubmit w st) = Failed \<longrightarrow>
      \<not> isUsingTool (snd (snd (handleSubmit w st))) \<and>
      currentTool (snd (snd (handleSubmit w st))) = []) \<and>
   (\<not> isUsingTool st \<and> currentTool st = [] \<longrightarrow>
      \<not> isUsingTool (snd (snd (handleSubmit w st))) \<and>
      currentTool (snd (snd (handleSubmit w st))) = []) \<and>
   tool_inv (initial_state env_openai env_tavily) \<and>
   (tool_inv st \<longrightarrow> tool_inv (snd (process_chunk captured chunk (am, st)))) \<and>
   (tool_inv st \<longrightarrow> tool_inv (snd (stream_loop captured chunks (am, st)))) \<and>
   (tool_inv st \<longrightarrow> tool_inv (snd (snd (handleSubmit w st))))"
proof -
  have ended: "\<not> isUsingTool (snd (snd (handleSubmit w st))) \<and>
      currentTool (snd (snd (handleSubmit w st))) = []"
    if "fst (handleSubmit w st) = Completed \<or> fst (handleSubmit w st) = Failed"
    using handleSubmit_cases[of w st] that finally_block_idle
    by (metis Outcome.distinct(3,5,7,9) fst_conv snd_conv)
  have idle: "\<not> isUsingTool (snd (snd (handleSubmit w st))) \<and>
      currentTool (snd (snd (handleSubmit w st))) = []"
    if "\<not> isUsingTool st \<and> currentTool st = []"
    using handleSubmit_cases[of w st] that finally_block_idle
    by (metis snd_conv)
  have init: "tool_inv (initial_state env_openai env_tavily)"
    by (simp add: tool_inv_def initial_state_def)
  have step: "tool_inv (snd (process_chunk captured chunk (am, st)))" if "tool_inv st"
    using that tool_inv_process_chunk[of "(am, st)"] by simp
  have loop: "tool_inv (snd (stream_loop captured chunks (am, st)))" if "tool_inv st"
    using that tool_inv_stream_loop[of "(am, st)"] by simp
  have turn: "tool_inv (snd (snd (handleSubmit w st)))" if "tool_inv st"
    using handleSubmit_cases[of w st] that finally_block_idle
    by (metis snd_conv tool_inv_def)
  from ended idle init step loop turn show ?thesis
    by blast
qed

theorem tool_display_off_after_turn_witness:
  "fst (handleSubmit (streaming [''__TOOL_USAGE__search__TOOL_USAGE__'', ''hello'']) typed_hi)
     = Completed \<and>
   isUsingTool (snd (stream_loop False [''__TOOL_USAGE__search__TOOL_USAGE__'', ''hello'']
     ([], loop_entry))) \<and>
   \<not> isUsingTool (snd (snd (handleSubmit
     (streaming [''__TOOL_USAGE__search__TOOL_USAGE__'', ''hello'']) typed_hi))) \<and>
   currentTool (snd (snd (handleSubmit
     (streaming [''__TOOL_USAGE__search__TOOL_USAGE__'', ''hello'']) typed_hi))) = [] \<and>
   tool_inv loop_entry \<and>
   tool_inv (snd (stream_loop False [''__TOOL_USAGE__search__TOOL_USAGE__'', ''hello'']
     ([], loop_entry)))"
proof -
  have h: "fst (handleSubmit (streaming [''__TOOL_USAGE__search__TOOL_USAGE__'', ''hello''])
      typed_hi) = Completed"
    by code_simp
  have r: "isUsingTool (snd (stream_loop False [''__TOOL_USAGE__search__TOOL_USAGE__'', ''hello'']
      ([], loop_entry)))"
    by code_simp
  have i: "tool_inv loop_entry"
    by code_simp
  from tool_display_off_after_turn [where st = typed_hi
      and w = "streaming [''__TOOL_USAGE__search__TOOL_USAGE__'', ''hello'']"] h
  have a: "\<not> isUsingTool (snd (snd (handleSubmit
       (streaming [''__TOOL_USAGE__search__TOOL_USAGE__'', ''hello'']) typed_hi))) \<and>
     currentTool (snd (snd (handleSubmit
       (streaming [''__TOOL_USAGE__search__TOOL_USAGE__'', ''hello'']) typed_hi))) = []"
    by blast
  from tool_display_off_after_turn [where st = loop_entry and captured = False and am = "[]"
      and chunks = "[''__TOOL_USAGE__search__TOOL_USAGE__'', ''hello'']"] i
  have b: "tool_inv (snd (stream_loop False [''__TOOL_USAGE__search__TOOL_USAGE__'', ''hello'']
     ([], loop_entry)))"
    by blast
  from h r i a b show ?thesis by blast
qed

section \<open>Requests\<close>

subsection \<open>The Tavily key check\<close>

text \<open>
  C7 (as the code has it). With a document selected and a Tavily key that is blank after
  trimming, a call changes no state cell and sends no request. When the user text and the
  OpenAI key pass the validation check that comes first, the call ends with the alert of
  the Tavily key check; otherwise it has already returned silently at the validation check.
\<close>

theorem missing_tavily_key_no_turn:
  assumes "selectedPDF st \<noteq> []" and "trim (tavilyApiKey st) = []"
  shows "snd (snd (handleSubmit w st)) = st \<and>
         (\<forall>e\<in>set (fst (snd (handleSubmit w st))). \<forall>url body. e \<noteq> Fetch url body) \<and>
         (trim (userMessage st) \<noteq> [] \<and> trim (apiKey st) \<noteq> [] \<longrightarrow>
            fst (handleSubmit w st) = ConfigurationError \<and>
            fst (snd (handleSubmit w st)) =
              [Alert ''Tavily API key is required for PDF chat with web search capabilities'']) \<and>
         (trim (userMessage st) = [] \<or> trim (apiKey st) = [] \<longrightarrow>
            fst (handleSubmit w st) = Rejected \<and> fst (snd (handleSubmit w st)) = [])"
  using assms by (simp add: handleSubmit_def)

theorem missing_tavily_key_no_turn_witness:
  "selectedPDF no_tavily_key \<noteq> [] \<and> trim (tavilyApiKey no_tavily_key) = [] \<and>
   trim (userMessage no_tavily_key) \<noteq> [] \<and> trim (apiKey no_tavily_key) \<noteq> [] \<and>
   handleSubmit (streaming [''never read'']) no_tavily_key =
     (ConfigurationError,
      [Alert ''Tavily API key is required for PDF chat with web search capabilities''],
      no_tavily_key)"
proof -
  have h: "selectedPDF no_tavily_key \<noteq> []" "trim (tavilyApiKey no_tavily_key) = []"
    by code_simp+
  have v: "trim (userMessage no_tavily_key) \<noteq> []" "trim (apiKey no_tavily_key) \<noteq> []"
    by code_simp+
  from missing_tavily_key_no_turn [OF h, of "streaming [''never read'']"] v h
  show ?thesis
    by (metis prod.collapse)
qed

text \<open>
  C7 (as stated) fails for a submission with an empty input: with a document selected and
  no Tavily key, the call returns at the validation check, without the alert.
\<close>

theorem missing_tavily_key_counterexample:
  "selectedPDF (episode_selected\<lparr>tavilyApiKey := []\<rparr>) \<noteq> [] \<and>
   trim (tavilyApiKey (episode_selected\<lparr>tavilyApiKey := []\<rparr>)) = [] \<and>
   handleSubmit (streaming []) (episode_selected\<lparr>tavilyApiKey := []\<rparr>) =
     (Rejected, [], episode_selected\<lparr>tavilyApiKey := []\<rparr>) \<and>
   fst (handleSubmit (streaming []) (episode_selected\<lparr>tavilyApiKey := []\<rparr>)) \<noteq>
     ConfigurationError"
  by code_simp

subsection \<open>The request of a turn\<close>



section \<open>The document list\<close>

subsection \<open>Removing a document\<close>

text \<open>
  C9 (as the code has it). A confirmed removal that the backend acknowledges clears the
  selection when the removed document is the selected one. The list afterwards is the
  answer to the refresh request; when the refresh fails, the list stays as it was. In
  every other case no state cell changes. The selection still resolves after the call if it
  did before and a refreshed list holds the selected document, unless that is the removed
  one.
\<close>

theorem delete_clears_selection:
  "(confirmed w \<and> deleted w = DeleteOk \<and> selectedPDF st = pdfId \<longrightarrow>
      selectedPDF (snd (handleDeletePDF w pdfId st)) = []) \<and>
   (confirmed w \<and> deleted w = DeleteOk \<longrightarrow>
      uploadedPDFs (snd (handleDeletePDF w pdfId st)) =
        (case listed w of ListOk pdfs \<Rightarrow> pdfs
         | ListNotOk \<Rightarrow> uploadedPDFs st
         | ListThrows \<Rightarrow> uploadedPDFs st)) \<and>
   (\<not> (confirmed w \<and> deleted w = DeleteOk) \<longrightarrow> snd (handleDeletePDF w pdfId st) = st) \<and>
   (selection_resolves st \<and>
    (\<forall>pdfs. listed w = ListOk pdfs \<and> selectedPDF st \<noteq> pdfId \<longrightarrow>
       selectedPDF st = [] \<or> selectedPDF st \<in> set (map pdf_id pdfs)) \<longrightarrow>
      selection_resolves (snd (handleDeletePDF w pdfId st)))"
  by (cases "deleted w"; cases "listed w")
     (auto simp: handleDeletePDF_def loadUploadedPDFs_def selection_resolves_def Let_def
           split: option.splits)

theorem delete_clears_selection_witness:
  "selection_resolves second_selected \<and>
   selectedPDF (snd (handleDeletePDF (deletion (ListOk [episode])) ''doc-2'' second_selected)) = [] \<and>
   uploadedPDFs (snd (handleDeletePDF (deletion (ListOk [episode])) ''doc-2'' second_selected)) =
     [episode] \<and>
   selection_resolves (snd (handleDeletePDF (deletion (ListOk [episode])) ''doc-2'' second_selected)) \<and>
   selectedPDF (snd (handleDeletePDF (deletion (ListOk [second_episode])) ''doc-1'' second_selected)) =
     ''doc-2'' \<and>
   selection_resolves (snd (handleDeletePDF (deletion (ListOk [second_episode])) ''doc-1''
     second_selected))"
proof -
  have i: "selection_resolves second_selected" "selectedPDF second_selected = ''doc-2''"
    by code_simp+
  have w: "confirmed (deletion r)" "deleted (deletion r) = DeleteOk" "listed (deletion r) = r" for r
    by (simp_all add: deletion_def)
  have p: "pdf_id second_episode = ''doc-2''"
    by code_simp
  note a = delete_clears_selection [where w = "deletion (ListOk [episode])" and pdfId = "''doc-2''"
      and st = second_selected]
  note b = delete_clears_selection [where w = "deletion (ListOk [second_episode])"
      and pdfId = "''doc-1''" and st = second_selected]
  from a i w have "selectedPDF (snd (handleDeletePDF (deletion (ListOk [episode])) ''doc-2''
      second_selected)) = [] \<and>
    uploadedPDFs (snd (handleDeletePDF (deletion (ListOk [episode])) ''doc-2'' second_selected)) =
      [episode] \<and>
    selection_resolves (snd (handleDeletePDF (deletion (ListOk [episode])) ''doc-2''
      second_selected))"
    by simp
  moreover from b i w p have "selection_resolves (snd (handleDeletePDF
      (deletion (ListOk [second_episode])) ''doc-1'' second_selected))"
    by simp
  moreover have "selectedPDF (snd (handleDeletePDF (deletion (ListOk [second_episode])) ''doc-1''
      second_selected)) = ''doc-2''"
    by code_simp
  ultimately show ?thesis using i by simp
qed

text \<open>
  C9 (as stated) fails. When the refresh after the removal of the selected document
  \<open>doc-1\<close> fails, the selection is cleared but the list still holds \<open>doc-1\<close>. When
  \<open>doc-1\<close> is removed while \<open>doc-2\<close> is selected and the refreshed list is empty, the
  selection \<open>doc-2\<close> no longer resolves.
\<close>

theorem delete_list_counterexample:
  "selectedPDF episode_selected = ''doc-1'' \<and>
   selectedPDF (snd (handleDeletePDF (deletion ListNotOk) ''doc-1'' episode_selected)) = [] \<and>
   ''doc-1'' \<in> set (map pdf_id
      (uploadedPDFs (snd (handleDeletePDF (deletion ListNotOk) ''doc-1'' episode_selected)))) \<and>
   selection_resolves second_selected \<and>
   \<not> selection_resolves (snd (handleDeletePDF (deletion (ListOk [])) ''doc-1'' second_selected))"
  by code_simp

section \<open>The transcript\<close>

subsection \<open>What the chunks of a turn can change\<close>

text \<open>
  C10. The loop keeps the number of messages, and the role and the time stamp of each.
  Every message but the last, and every user message, is the same after the loop as
  before: only the content of a last message with the role assistant can differ.
\<close>

theorem chunks_change_only_last_assistant_message:
  "length (messages (snd (stream_loop captured chunks (am, st)))) = length (messages st) \<and>
   (\<forall>i<length (messages st).
      role (messages (snd (stream_loop captured chunks (am, st))) ! i) = role (messages st ! i) \<and>
      timestamp (messages (snd (stream_loop captured chunks (am, st))) ! i) =
        timestamp (messages st ! i) \<and>
      (Suc i < length (messages st) \<or> role (messages st ! i) = User \<longrightarrow>
         messages (snd (stream_loop captured chunks (am, st))) ! i = messages st ! i))"
  using stream_loop_frame[of captured chunks "(am, st)"] by simp

theorem chunks_change_only_last_assistant_message_witness:
  "length (messages loop_entry) = 2 \<and>
   role (messages loop_entry ! 0) = User \<and>
   length (messages (snd (stream_loop False
     [''Hello'', ''__TOOL_USAGE__search__TOOL_USAGE__'', '' world''] ([], loop_entry)))) = 2 \<and>
   messages (snd (stream_loop False
     [''Hello'', ''__TOOL_USAGE__search__TOOL_USAGE__'', '' world''] ([], loop_entry))) ! 0 =
     messages loop_entry ! 0 \<and>
   role (messages (snd (stream_loop False
     [''Hello'', ''__TOOL_USAGE__search__TOOL_USAGE__'', '' world''] ([], loop_entry))) ! 1) =
     Assistant \<and>
   content (messages (snd (stream_loop False
     [''Hello'', ''__TOOL_USAGE__search__TOOL_USAGE__'', '' world''] ([], loop_entry))) ! 1) =
     ''Hello world''"
proof -
  have l: "length (messages loop_entry) = 2" "role (messages loop_entry ! 0) = User"
    "role (messages loop_entry ! 1) = Assistant"
    by code_simp+
  have c: "content (messages (snd (stream_loop False
     [''Hello'', ''__TOOL_USAGE__search__TOOL_USAGE__'', '' world''] ([], loop_entry))) ! 1) =
     ''Hello world''"
    by code_simp
  note t = chunks_change_only_last_assistant_message [where captured = False
      and chunks = "[''Hello'', ''__TOOL_USAGE__search__TOOL_USAGE__'', '' world'']"
      and am = "[]" and st = loop_entry]
  from t l have "length (messages (snd (stream_loop False
     [''Hello'', ''__TOOL_USAGE__search__TOOL_USAGE__'', '' world''] ([], loop_entry)))) = 2"
    by simp
  moreover from t l have "messages (snd (stream_loop False
     [''Hello'', ''__TOOL_USAGE__search__TOOL_USAGE__'', '' world''] ([], loop_entry))) ! 0 =
     messages loop_entry ! 0"
    by simp
  moreover from t l have "role (messages (snd (stream_loop False
     [''Hello'', ''__TOOL_USAGE__search__TOOL_USAGE__'', '' world''] ([], loop_entry))) ! 1) =
     Assistant"
    by simp
  ultimately show ?thesis using l c by simp
qed

end
